theory Spec2Isabelle
  imports Main "HOL-Library.Sublist"
begin

section \<open>Strings and the fixed regular expressions of \<open>app.py\<close>\<close>

text \<open>
  A Python \<open>str\<close> is a list of code points. The texts of the application are modelled as
  \<open>string\<close>: one \<open>char\<close> per code point, for the code points 0 to 255. The character
  classes below are the ones of Python's \<open>re\<close> module (\<open>\s\<close>, \<open>\d\<close>, \<open>.\<close>) and of
  \<open>str.splitlines\<close>, restricted to that range. The pattern matcher further down is written
  for any type of code points.
\<close>

abbreviation NL :: char where "NL \<equiv> CHR 0x0A"

abbreviation CR :: char where "CR \<equiv> CHR 0x0D"

definition py_isspace :: "char \<Rightarrow> bool" where
  \<comment> \<open>what \<open>\s\<close> matches\<close>
  "py_isspace c = (c \<in> set [CHR 0x09, CHR 0x0A, CHR 0x0B, CHR 0x0C, CHR 0x0D,
                             CHR 0x1C, CHR 0x1D, CHR 0x1E, CHR 0x1F, CHR 0x20, CHR 0x85, CHR 0xA0])"

definition py_isdigit :: "char \<Rightarrow> bool" where
  \<comment> \<open>what \<open>\d\<close> matches\<close>
  "py_isdigit c = (c \<in> set ''0123456789'')"

definition py_linebreak :: "char \<Rightarrow> bool" where
  \<comment> \<open>the line boundaries of \<open>str.splitlines\<close>\<close>
  "py_linebreak c = (c \<in> set [CHR 0x0A, CHR 0x0B, CHR 0x0C, CHR 0x0D,
                               CHR 0x1C, CHR 0x1D, CHR 0x1E, CHR 0x85])"

definition py_lower_char :: "char \<Rightarrow> char" where
  \<comment> \<open>the lower-case mapping of the code points 0 to 255\<close>
  "py_lower_char c =
     (let n = (of_char c :: nat)
      in if (65 \<le> n \<and> n \<le> 90) \<or> (192 \<le> n \<and> n \<le> 214) \<or> (216 \<le> n \<and> n \<le> 222)
         then char_of (n + 32) else c)"

fun py_count :: "char \<Rightarrow> string \<Rightarrow> nat" where
  \<comment> \<open>\<open>s.count(c)\<close> for a one-character \<open>c\<close>\<close>
  "py_count c [] = 0"
| "py_count c (d # ds) = (if d = c then Suc (py_count c ds) else py_count c ds)"

fun py_rstrip :: "char \<Rightarrow> string \<Rightarrow> string" where
  \<comment> \<open>\<open>s.rstrip(c)\<close> for a one-character \<open>c\<close>\<close>
  "py_rstrip c [] = []"
| "py_rstrip c (d # ds) =
     (let r = py_rstrip c ds in if r = [] \<and> d = c then [] else d # r)"

fun splitlines_from :: "string \<Rightarrow> string \<Rightarrow> string list" where
  \<comment> \<open>the first argument is the line read so far\<close>
  "splitlines_from cur [] = (if cur = [] then [] else [cur])"
| "splitlines_from cur (c # cs) =
     (if c = CR \<and> cs \<noteq> [] \<and> hd cs = NL then cur # splitlines_from [] (tl cs)
      else if py_linebreak c then cur # splitlines_from [] cs
      else splitlines_from (cur @ [c]) cs)"

definition py_splitlines :: "string \<Rightarrow> string list" where
  \<comment> \<open>\<open>s.splitlines()\<close>\<close>
  "py_splitlines s = splitlines_from [] s"

fun find_first :: "'c list \<Rightarrow> 'c list \<Rightarrow> nat option" where
  \<comment> \<open>offset of the first occurrence of the second string in the first\<close>
  "find_first [] e = (if e = [] then Some 0 else None)"
| "find_first (c # cs) e =
     (if prefix e (c # cs) then Some 0 else map_option Suc (find_first cs e))"

definition py_find :: "'c list \<Rightarrow> 'c list \<Rightarrow> nat \<Rightarrow> nat option" where
  \<comment> \<open>\<open>s.find(e, i)\<close> for \<open>i \<ge> 0\<close>; \<open>None\<close> is Python's \<open>-1\<close>\<close>
  "py_find s e i =
     (if length s < i then None else map_option (\<lambda>k. k + i) (find_first (drop i s) e))"

definition oLogLineRegex_search :: "string \<Rightarrow> bool" where
  \<comment> \<open>\<open>re.compile(r"^\d{4}-\d{2}-\d{2}").search(s) is not None\<close>\<close>
  "oLogLineRegex_search s =
     (10 \<le> length s \<and>
      list_all py_isdigit (take 4 s) \<and> s ! 4 = CHR ''-'' \<and>
      list_all py_isdigit (take 2 (drop 5 s)) \<and> s ! 7 = CHR ''-'' \<and>
      list_all py_isdigit (take 2 (drop 8 s)))"

fun keyword_search :: "string \<Rightarrow> string \<Rightarrow> bool" where
  \<comment> \<open>\<open>re.compile(r"^.*\sKW\s").search(s) is not None\<close>: \<open>.*\<close> takes characters other
      than the newline, then a \<open>\s\<close>, the keyword and a \<open>\s\<close> follow\<close>
  "keyword_search kw [] = False"
| "keyword_search kw (c # cs) =
     ((py_isspace c \<and> prefix kw cs \<and>
         (case drop (length kw) cs of [] \<Rightarrow> False | d # _ \<Rightarrow> py_isspace d))
      \<or> (c \<noteq> NL \<and> keyword_search kw cs))"

section \<open>Log levels\<close>

text \<open>
  The four \<open>LogLevel\<close> objects of \<open>Application.lLogLevels\<close> are created once and shared by
  reference between the list and the expressions. A level is identified by its
  constructor; its immutable fields are functions of it, and its mutable field
  \<open>bDisplay\<close> lives in the application state.
\<close>

datatype LogLevel = Error | Warning | Info | Debug

fun sName :: "LogLevel \<Rightarrow> string" where
  "sName Error = ''Error''"
| "sName Warning = ''Warning''"
| "sName Info = ''Info''"
| "sName Debug = ''Debug''"

fun keyword :: "LogLevel \<Rightarrow> string" where
  \<comment> \<open>the keyword of \<open>oRegex\<close>\<close>
  "keyword Error = ''ERROR''"
| "keyword Warning = ''WARN''"
| "keyword Info = ''INFO''"
| "keyword Debug = ''DEBUG''"

definition sTag :: "LogLevel \<Rightarrow> string" where
  "sTag l = ''LogLevel:'' @ sName l"

definition LogLevel_matches :: "LogLevel \<Rightarrow> string \<Rightarrow> bool" where
  "LogLevel_matches l sLogLine = keyword_search (keyword l) sLogLine"

definition lLogLevels :: "LogLevel list" where
  "lLogLevels = [Error, Warning, Info, Debug]"

fun first_matching :: "LogLevel list \<Rightarrow> string \<Rightarrow> LogLevel option" where
  "first_matching [] sLogExpr = None"
| "first_matching (l # ls) sLogExpr =
     (if LogLevel_matches l sLogExpr then Some l else first_matching ls sLogExpr)"

definition getLogLevel :: "string \<Rightarrow> LogLevel option" where
  "getLogLevel sLogExpr = first_matching lLogLevels sLogExpr"

section \<open>Patterns\<close>

text \<open>
  Python's \<open>re\<close> module and its lower-case mapping are parameters, for any type \<open>'c\<close> of
  code points: \<open>re_compile\<close> is \<open>re.compile\<close>, with \<open>None\<close> when it raises, and
  \<open>re_finditer rx s\<close> is the list of \<open>(m.start(), m.end())\<close> for \<open>m\<close> in \<open>rx.finditer(s)\<close>.
  \<open>lower_at s i\<close> is what \<open>str.lower\<close> puts for the code point at index \<open>i\<close> of \<open>s\<close>: one code
  point, followed by none or more (U+0130 gives two), and chosen with the rest of \<open>s\<close> in
  view (a capital sigma at the end of a word gives the final sigma).
\<close>

record ('rx, 'c) py_runtime =
  re_compile :: "'c list \<Rightarrow> 'rx option"
  re_finditer :: "'rx \<Rightarrow> 'c list \<Rightarrow> (nat \<times> nat) list"
  lower_at :: "'c list \<Rightarrow> nat \<Rightarrow> 'c \<times> 'c list"

definition py_lower :: "('rx, 'c) py_runtime \<Rightarrow> 'c list \<Rightarrow> 'c list" where
  \<comment> \<open>\<open>s.lower()\<close>: the mapping of each code point of \<open>s\<close>, in order\<close>
  "py_lower E s =
     concat (map (\<lambda>i. case lower_at E s i of (c, cs) \<Rightarrow> c # cs) [0..<length s])"

datatype error = AttributeError | NonTermination

text \<open>
  \<open>findAll\<close> of \<open>util.py\<close>: the offsets the generator yields. With an empty \<open>sExpr\<close> the
  loop never advances and never returns; that is the value \<open>None\<close>.
\<close>

partial_function (option) findAll_from :: "'c list \<Rightarrow> 'c list \<Rightarrow> nat \<Rightarrow> nat list option" where
  "findAll_from sTxt sExpr iStart =
     (case py_find sTxt sExpr iStart of
        None \<Rightarrow> Some []
      | Some i \<Rightarrow> Option.bind (findAll_from sTxt sExpr (i + length sExpr)) (\<lambda>r. Some (i # r)))"

declare findAll_from.simps [code]

definition findAll :: "'c list \<Rightarrow> 'c list \<Rightarrow> nat list option" where
  "findAll sTxt sExpr = findAll_from sTxt sExpr 0"

record ('rx, 'c) Pattern =
  oRegex :: "'rx option"
  bRegex :: bool
  sPattern :: "'c list"
  iLen :: nat

definition Pattern_init :: "'c list \<Rightarrow> bool \<Rightarrow> ('rx, 'c) Pattern" where
  "Pattern_init sPat bRe = \<lparr>oRegex = None, bRegex = bRe, sPattern = sPat, iLen = length sPat\<rparr>"

text \<open>
  The methods of \<open>Pattern\<close> return their result and the pattern object, whose \<open>oRegex\<close>
  the first successful compilation fills in.
\<close>

definition getAllMatches ::
  "('rx, 'c) py_runtime \<Rightarrow> ('rx, 'c) Pattern \<Rightarrow> 'c list
     \<Rightarrow> error + ((nat \<times> nat) list \<times> ('rx, 'c) Pattern)" where
  "getAllMatches E p s =
     (if sPattern p = [] then Inr ([], p)
      else if bRegex p then
        (case oRegex p of
           None \<Rightarrow>
             (case re_compile E (sPattern p) of
                None \<Rightarrow> Inr ([], p)
              | Some rx \<Rightarrow> Inr (re_finditer E rx s, p\<lparr>oRegex := Some rx\<rparr>))
         | Some rx \<Rightarrow> Inr (re_finditer E rx s, p))
      else
        (case findAll (py_lower E s) (py_lower E (sPattern p)) of
           None \<Rightarrow> Inl NonTermination
         | Some offs \<Rightarrow> Inr (map (\<lambda>i. (i, i + iLen p)) offs, p)))"

definition getFirstMatch ::
  "('rx, 'c) py_runtime \<Rightarrow> ('rx, 'c) Pattern \<Rightarrow> 'c list
     \<Rightarrow> error + ((nat \<times> nat) option \<times> ('rx, 'c) Pattern)" where
  "getFirstMatch E p s =
     (case getAllMatches E p s of
        Inl err \<Rightarrow> Inl err
      | Inr (ms, p') \<Rightarrow> Inr (case ms of [] \<Rightarrow> None | m # _ \<Rightarrow> Some m, p'))"

definition matches ::
  "('rx, 'c) py_runtime \<Rightarrow> ('rx, 'c) Pattern \<Rightarrow> 'c list
     \<Rightarrow> error + (bool \<times> ('rx, 'c) Pattern)" where
  "matches E p s =
     (if sPattern p = [] then Inr (True, p)
      else (case getFirstMatch E p s of
              Inl err \<Rightarrow> Inl err
            | Inr (m, p') \<Rightarrow> Inr (m \<noteq> None, p')))"

section \<open>Expressions and the application state\<close>

text \<open>
  A text index \<open>"N.0"\<close> of the log widget is modelled by its line number \<open>N\<close>.
\<close>

record Expression =
  sText :: string
  oLogLevel :: "LogLevel option"
  sStartIdx :: "nat option"
  sEndIdx :: "nat option"
  bDisplay :: bool

definition Expression_init :: "string \<Rightarrow> LogLevel option \<Rightarrow> Expression" where
  "Expression_init sTxt oLvl =
     \<lparr>sText = sTxt, oLogLevel = oLvl, sStartIdx = None, sEndIdx = None, bDisplay = True\<rparr>"

text \<open>
  The calls the application makes on its user interface, in order:
  \<open>Delete n\<close> is \<open>w.delete("n.0", tk.END)\<close>, \<open>Insert t tag\<close> is \<open>w.insert(tk.END, t, tag)\<close>
  on the log widget, \<open>ShowWarning\<close> is \<open>tk.messagebox.showwarning\<close>. Scrolling and the
  search and filter highlighting read and write only the viewport and the tags of the
  widget; they are left out.
\<close>

datatype ui_call = Delete nat | Insert string "string option" | ShowWarning string string

text \<open>
  \<open>levelDisplay\<close> holds the \<open>bDisplay\<close> flag of each log level, \<open>sFilterEntry\<close> and
  \<open>bFilterRegex\<close> the values of the filter entry and of its regex check button.
  \<open>oFileWatchThread\<close> is the path the watch thread was started on; \<open>oQueue\<close> holds the
  chunks that thread has read and the application has not consumed yet.
  \<open>oSourceMenuValue\<close> is the \<open>oValue\<close> of the \<open>CallbackWrapper\<close> on the variable of the
  source menu: the last value for which the callback of the menu was fired.
\<close>

record Application =
  lExpressions :: "Expression list"
  levelDisplay :: "LogLevel \<Rightarrow> bool"
  sFilterEntry :: string
  bFilterRegex :: bool
  lRecentSourceFiles :: "string list"
  oFileWatchThread :: "string option"
  bWatchFile :: bool
  oQueue :: "string list"
  bProcessQueue :: bool
  oSourceMenuValue :: string

definition oFilterPattern :: "Application \<Rightarrow> ('rx, char) Pattern" where
  "oFilterPattern app = Pattern_init (sFilterEntry app) (bFilterRegex app)"

section \<open>The view: \<open>updateLogWidget\<close>\<close>

definition update_expr ::
  "(LogLevel \<Rightarrow> bool) \<Rightarrow> bool \<Rightarrow> nat \<Rightarrow> Expression \<Rightarrow> Expression \<times> ui_call list \<times> nat" where
  \<comment> \<open>the body of the loop over \<open>lExprToUpdate\<close>; \<open>bMatch\<close> is what
      \<open>oFilterPattern.matches(oExpr.sText)\<close> returned\<close>
  "update_expr disp bMatch iStartLineNumber oExpr =
     (let e0 = oExpr\<lparr>bDisplay := False\<rparr>;
          (e1, ins) =
            (if bMatch then
               (case oLogLevel e0 of
                  Some l \<Rightarrow>
                    (if disp l
                     then (e0\<lparr>bDisplay := True\<rparr>, [Insert (sText e0 @ [NL]) (Some (sTag l))])
                     else (e0, []))
                | None \<Rightarrow> (e0\<lparr>bDisplay := True\<rparr>, [Insert (sText e0 @ [NL]) None]))
             else (e0, []))
      in if bDisplay e1 then
           (let iEndLineNumber = iStartLineNumber + 1 + py_count NL (sText e1)
            in (e1\<lparr>sStartIdx := Some iStartLineNumber, sEndIdx := Some iEndLineNumber\<rparr>,
                ins, iEndLineNumber))
         else (e1, ins, iStartLineNumber))"

fun update_loop ::
  "('rx, char) py_runtime \<Rightarrow> (LogLevel \<Rightarrow> bool) \<Rightarrow> ('rx, char) Pattern \<Rightarrow> nat \<Rightarrow> Expression list
     \<Rightarrow> error + (Expression list \<times> ui_call list)" where
  "update_loop E disp pat n [] = Inr ([], [])"
| "update_loop E disp pat n (e # es) =
     (case matches E pat (sText e) of
        Inl err \<Rightarrow> Inl err
      | Inr (bMatch, pat') \<Rightarrow>
          (case update_expr disp bMatch n e of
             (e', ins, n') \<Rightarrow>
               (case update_loop E disp pat' n' es of
                  Inl err \<Rightarrow> Inl err
                | Inr (es', calls) \<Rightarrow> Inr (e' # es', ins @ calls))))"

definition updateLogWidget ::
  "('rx, char) py_runtime \<Rightarrow> Application \<Rightarrow> nat \<Rightarrow> error + (Application \<times> ui_call list)" where
  \<comment> \<open>\<open>lOldExpr[-1].sEndIdx.split(".")\<close> raises AttributeError when \<open>sEndIdx\<close> is \<open>None\<close>\<close>
  "updateLogWidget E app iStartIdx =
     (let lOldExpr = take iStartIdx (lExpressions app);
          lExprToUpdate = drop iStartIdx (lExpressions app)
      in case (if lOldExpr \<noteq> []
               then (case sEndIdx (last lOldExpr) of
                       None \<Rightarrow> Inl AttributeError
                     | Some n \<Rightarrow> Inr n)
               else Inr 1) of
           Inl err \<Rightarrow> Inl err
         | Inr iStartLineNumber \<Rightarrow>
             (case update_loop E (levelDisplay app) (oFilterPattern app) iStartLineNumber
                     lExprToUpdate of
                Inl err \<Rightarrow> Inl err
              | Inr (lUpdated, calls) \<Rightarrow>
                  Inr (app\<lparr>lExpressions := lOldExpr @ lUpdated\<rparr>,
                       Delete iStartLineNumber #
                       (if 1 < iStartLineNumber then [Insert [NL] None] else []) @ calls)))"

definition setLogLevelDisplay ::
  "('rx, char) py_runtime \<Rightarrow> Application \<Rightarrow> LogLevel \<Rightarrow> bool \<Rightarrow> error + (Application \<times> ui_call list)" where
  "setLogLevelDisplay E app l b =
     updateLogWidget E (app\<lparr>levelDisplay := (levelDisplay app)(l := b)\<rparr>) 0"

section \<open>The record assembler: \<open>appendLogLines\<close>\<close>

fun append_loop ::
  "nat \<Rightarrow> string list \<Rightarrow> Expression list \<times> nat \<Rightarrow> Expression list \<times> nat" where
  \<comment> \<open>the loop over \<open>enumerate(lLines)\<close>, on the pair of \<open>lExpressions\<close> and
      \<open>iFirstExprIdx\<close>. \<open>bIsExpr\<close> is a bool, so \<open>bIsExpr is not None\<close> is true and the level
      is always \<open>getLogLevel(sLine)\<close>. The decrement happens only on a non-empty list, where
      \<open>iFirstExprIdx\<close> is at least 1.\<close>
  "append_loop iIdx [] (exprs, iFirstExprIdx) = (exprs, iFirstExprIdx)"
| "append_loop iIdx (sLine # rest) (exprs, iFirstExprIdx) =
     (let bIsExpr = oLogLineRegex_search sLine
      in if bIsExpr \<or> exprs = [] then
           (let oLvl = (if True then getLogLevel sLine else None)
            in append_loop (Suc iIdx) rest (exprs @ [Expression_init sLine oLvl], iFirstExprIdx))
         else
           (let oLastExpr = last exprs;
                exprs' = butlast exprs @ [oLastExpr\<lparr>sText := sText oLastExpr @ [NL] @ sLine\<rparr>]
            in append_loop (Suc iIdx) rest
                 (exprs', if iIdx = 0 \<and> bDisplay oLastExpr
                          then iFirstExprIdx - 1 else iFirstExprIdx)))"

definition appendLogLines ::
  "('rx, char) py_runtime \<Rightarrow> Application \<Rightarrow> string list \<Rightarrow> error + (Application \<times> ui_call list)" where
  \<comment> \<open>\<open>filter(...)\<close> returns an iterator, which is true even when it yields nothing:
      the body always runs\<close>
  "appendLogLines E app lLines0 =
     (let lLines = filter (\<lambda>s. s \<noteq> []) (map (py_rstrip NL) lLines0)
      in case append_loop 0 lLines (lExpressions app, length (lExpressions app)) of
           (exprs, iFirstExprIdx) \<Rightarrow>
             updateLogWidget E (app\<lparr>lExpressions := exprs\<rparr>) iFirstExprIdx)"

definition doProcess ::
  "('rx, char) py_runtime \<Rightarrow> Application \<Rightarrow> error + (Application \<times> ui_call list)" where
  \<comment> \<open>one tick of \<open>startQueueProcessing\<close>: the queue is drained, every chunk split into
      lines\<close>
  "doProcess E app =
     (if bProcessQueue app then
        (let lLines = concat (map py_splitlines (oQueue app));
             app' = app\<lparr>oQueue := []\<rparr>
         in if lLines \<noteq> [] then appendLogLines E app' lLines else Inr (app', []))
      else Inr (app, []))"

section \<open>Opening a source file\<close>

text \<open>
  The file system is a parameter: \<open>normpath\<close> is
  \<open>os.path.normcase(os.path.abspath(p))\<close> and \<open>isfile\<close> is \<open>os.path.isfile\<close>. Of the watch
  thread the model keeps the path it was started on and its \<open>bWatchFile\<close> flag.
\<close>

definition stopFileWatch :: "Application \<Rightarrow> Application" where
  "stopFileWatch app =
     (if oFileWatchThread app \<noteq> None then app\<lparr>bWatchFile := False\<rparr> else app)"

definition clearLog :: "Application \<Rightarrow> Application \<times> ui_call list" where
  "clearLog app = (app\<lparr>lExpressions := []\<rparr>, [Delete 1])"

definition startFileWatch :: "Application \<Rightarrow> string \<Rightarrow> Application \<times> ui_call list" where
  "startFileWatch app sFilePath =
     (case clearLog (stopFileWatch app) of
        (app', calls) \<Rightarrow>
          (app'\<lparr>oQueue := [], oFileWatchThread := Some sFilePath, bWatchFile := True\<rparr>, calls))"

text \<open>
  \<open>openNewSourceFile\<close> calls \<open>updateChoices\<close> on the source menu, which sets the variable
  of the menu to the first recent file. That write runs \<open>fireIfNew\<close>: when the value is not
  the last one fired, it is stored and the callback of the menu, \<open>openNewSourceFile\<close>
  itself, runs on it before \<open>updateChoices\<close> returns. The entries of the menu are not
  modelled. \<open>None\<close> is a chain of such calls that never ends.
\<close>

partial_function (option) openNewSourceFile ::
  "(string \<Rightarrow> string) \<Rightarrow> (string \<Rightarrow> bool) \<Rightarrow> Application \<Rightarrow> string
     \<Rightarrow> (Application \<times> ui_call list) option" where
  "openNewSourceFile normpath isfile app sFilePath0 =
     (let sFilePath = normpath sFilePath0
      in if \<not> isfile sFilePath then
           Some (app, [ShowWarning ''File not found'' (''File not found:'' @ [NL] @ sFilePath)])
         else
           (let app1 = app\<lparr>lRecentSourceFiles :=
                             sFilePath # (if sFilePath \<in> set (lRecentSourceFiles app)
                                          then remove1 sFilePath (lRecentSourceFiles app)
                                          else lRecentSourceFiles app)\<rparr>
            in Option.bind
                 (if sFilePath \<noteq> oSourceMenuValue app1
                  then openNewSourceFile normpath isfile
                         (app1\<lparr>oSourceMenuValue := sFilePath\<rparr>) sFilePath
                  else Some (app1, []))
                 (\<lambda>(app2, calls).
                    case startFileWatch app2 sFilePath of
                      (app3, calls') \<Rightarrow> Some (app3, calls @ calls'))))"

section \<open>Notions used by the properties\<close>

text \<open>Each span starts at or after the end of the span before it.\<close>

fun spans_ordered :: "(nat \<times> nat) list \<Rightarrow> bool" where
  "spans_ordered [] = True"
| "spans_ordered [x] = True"
| "spans_ordered (x # y # r) = (snd x \<le> fst y \<and> spans_ordered (y # r))"

text \<open>What \<open>p.matches(s)\<close> returns.\<close>

definition pattern_matches ::
  "('rx, 'c) py_runtime \<Rightarrow> ('rx, 'c) Pattern \<Rightarrow> 'c list \<Rightarrow> bool" where
  "pattern_matches E p s = (case matches E p s of Inl _ \<Rightarrow> False | Inr (b, _) \<Rightarrow> b)"

text \<open>
  The pattern \<open>p\<close> is the freshly built pattern \<open>p0\<close> after some calls: only its memoised
  \<open>oRegex\<close> may differ, and it is empty or the compiled \<open>sPattern\<close>.
\<close>

definition memo_ok ::
  "('rx, 'c) py_runtime \<Rightarrow> ('rx, 'c) Pattern \<Rightarrow> ('rx, 'c) Pattern \<Rightarrow> bool" where
  "memo_ok E p0 p =
     (p = p0\<lparr>oRegex := oRegex p\<rparr> \<and>
      (oRegex p = None \<or> oRegex p = re_compile E (sPattern p0)))"

text \<open>
  The loop of \<open>updateLogWidget\<close> with the answers of the filter pattern given as a
  function of the text.
\<close>

fun project_with ::
  "(LogLevel \<Rightarrow> bool) \<Rightarrow> (string \<Rightarrow> bool) \<Rightarrow> nat \<Rightarrow> Expression list
     \<Rightarrow> Expression list \<times> ui_call list" where
  "project_with disp m n [] = ([], [])"
| "project_with disp m n (e # es) =
     (case update_expr disp (m (sText e)) n e of
        (e', ins, n') \<Rightarrow>
          (case project_with disp m n' es of
             (es', calls) \<Rightarrow> (e' # es', ins @ calls)))"

text \<open>The call that appends a displayed expression to the widget.\<close>

definition insert_of :: "Expression \<Rightarrow> ui_call" where
  "insert_of e = Insert (sText e @ [NL]) (map_option sTag (oLogLevel e))"

text \<open>
  The ranges of the displayed expressions are contiguous from line \<open>n\<close>: each displayed
  expression starts where the displayed expression before it ends, the first one at \<open>n\<close>.
\<close>

fun ranges_contiguous_from :: "nat \<Rightarrow> Expression list \<Rightarrow> bool" where
  "ranges_contiguous_from n [] = True"
| "ranges_contiguous_from n (e # es) =
     (if bDisplay e
      then sStartIdx e = Some n \<and>
           (case sEndIdx e of None \<Rightarrow> False | Some m \<Rightarrow> n < m \<and> ranges_contiguous_from m es)
      else ranges_contiguous_from n es)"

text \<open>
  The index of the first expression of \<open>new\<close> that is not in \<open>old\<close> unchanged: the first
  one created or mutated.
\<close>

fun first_dirty :: "Expression list \<Rightarrow> Expression list \<Rightarrow> nat" where
  "first_dirty (x # xs) (y # ys) = (if x = y then Suc (first_dirty xs ys) else 0)"
| "first_dirty xs ys = 0"

section \<open>Example inputs\<close>

text \<open>
  A runtime to run the model on, for the code points 0 to 255: its \<open>re_compile\<close> rejects the
  pattern \<open>(\<close> and reads every other pattern as a literal text, whose occurrences
  \<open>re_finditer\<close> returns from left to right, each one starting after the end of the one
  before; its lower-case mapping is the one of these code points.
\<close>

fun literal_scan :: "'c list \<Rightarrow> nat \<Rightarrow> nat \<Rightarrow> 'c list \<Rightarrow> (nat \<times> nat) list" where
  "literal_scan e i k [] = []"
| "literal_scan e i k (c # cs) =
     (if k = 0 \<and> e \<noteq> [] \<and> prefix e (c # cs)
      then (i, i + length e) # literal_scan e (Suc i) (length e - 1) cs
      else literal_scan e (Suc i) (k - 1) cs)"

definition example_engine :: "(string, char) py_runtime" where
  "example_engine =
     \<lparr>re_compile = (\<lambda>s. if s = ''('' then None else Some s),
      re_finditer = (\<lambda>rx s. literal_scan rx 0 0 s),
      lower_at = (\<lambda>s i. (py_lower_char (s ! i), []))\<rparr>"

text \<open>
  A runtime on code points as numbers, with the two cases of \<open>str.lower\<close> that are not a
  map of one code point to one: U+0130 (304) becomes \<open>i\<close> (105) and U+0307 (775), and a
  capital sigma (931) becomes the final sigma (962) at the end of the text after another
  code point, the small sigma (963) elsewhere. The capital letters A to Z become small.
\<close>

definition unicode_lower_at :: "nat list \<Rightarrow> nat \<Rightarrow> nat \<times> nat list" where
  "unicode_lower_at s i =
     (let c = s ! i
      in if c = 304 then (105, [775])
         else if c = 931 then (if 0 < i \<and> Suc i = length s then (962, []) else (963, []))
         else if 65 \<le> c \<and> c \<le> 90 then (c + 32, [])
         else (c, []))"

definition unicode_engine :: "(nat list, nat) py_runtime" where
  "unicode_engine =
     \<lparr>re_compile = (\<lambda>s. Some s),
      re_finditer = (\<lambda>rx s. literal_scan rx 0 0 s),
      lower_at = unicode_lower_at\<rparr>"

text \<open>The state \<open>Application.__init__\<close> builds.\<close>

definition Application_init :: Application where
  "Application_init =
     \<lparr>lExpressions = [], levelDisplay = (\<lambda>_. True), sFilterEntry = [], bFilterRegex = True,
      lRecentSourceFiles = [], oFileWatchThread = None, bWatchFile = False, oQueue = [],
      bProcessQueue = True, oSourceMenuValue = []\<rparr>"

text \<open>
  The state after the single line \<open>2024-01-01 ERROR a\<close> was appended to the initial
  state and displayed.
\<close>

definition example_expr :: Expression where
  "example_expr =
     \<lparr>sText = ''2024-01-01 ERROR a'', oLogLevel = Some Error, sStartIdx = Some 1,
      sEndIdx = Some 2, bDisplay = True\<rparr>"

definition example_app :: Application where
  "example_app = Application_init\<lparr>lExpressions := [example_expr]\<rparr>"

text \<open>
  Three states of one run: two lines were appended to the initial state; then the level
  Info was switched off; then a third line was appended.
\<close>

definition two_app :: Application where
  "two_app =
     Application_init\<lparr>lExpressions :=
       [\<lparr>sText = ''2024-01-01 ERROR a'', oLogLevel = Some Error, sStartIdx = Some 1,
          sEndIdx = Some 2, bDisplay = True\<rparr>,
        \<lparr>sText = ''2024-01-02 INFO b'', oLogLevel = Some Info, sStartIdx = Some 2,
          sEndIdx = Some 3, bDisplay = True\<rparr>]\<rparr>"

definition hidden_app :: Application where
  "hidden_app =
     Application_init\<lparr>lExpressions :=
       [\<lparr>sText = ''2024-01-01 ERROR a'', oLogLevel = Some Error, sStartIdx = Some 1,
          sEndIdx = Some 2, bDisplay = True\<rparr>,
        \<lparr>sText = ''2024-01-02 INFO b'', oLogLevel = Some Info, sStartIdx = Some 2,
          sEndIdx = Some 3, bDisplay = False\<rparr>],
       levelDisplay := (\<lambda>_. True)(Info := False)\<rparr>"

definition broken_app :: Application where
  "broken_app =
     Application_init\<lparr>lExpressions :=
       [\<lparr>sText = ''2024-01-01 ERROR a'', oLogLevel = Some Error, sStartIdx = Some 1,
          sEndIdx = Some 2, bDisplay = True\<rparr>,
        \<lparr>sText = ''2024-01-02 INFO b'', oLogLevel = Some Info, sStartIdx = Some 2,
          sEndIdx = Some 3, bDisplay = False\<rparr>,
        \<lparr>sText = ''2024-01-03 ERROR c'', oLogLevel = Some Error, sStartIdx = Some 3,
          sEndIdx = Some 4, bDisplay = True\<rparr>],
       levelDisplay := (\<lambda>_. True)(Info := False)\<rparr>"

text \<open>
  The state of another run: the level Info was switched off in the initial state, then a
  line of that level was appended. Its expression was never displayed and has no range.
\<close>

definition never_shown_app :: Application where
  "never_shown_app =
     Application_init\<lparr>lExpressions :=
       [\<lparr>sText = ''2024-01-01 INFO a'', oLogLevel = Some Info, sStartIdx = None,
          sEndIdx = None, bDisplay = False\<rparr>],
       levelDisplay := (\<lambda>_. True)(Info := False)\<rparr>"

text \<open>A file system without files, and paths that are normalised already.\<close>

definition no_file :: "string \<Rightarrow> bool" where
  "no_file p = False"

definition same_path :: "string \<Rightarrow> string" where
  "same_path p = p"

section \<open>Properties of the classifier\<close>

lemma keyword_search_occurs:
  "keyword_search kw s \<Longrightarrow>
     \<exists>pre a b post. s = pre @ a # kw @ b # post \<and> py_isspace a \<and> py_isspace b"
proof (induction s)
  case Nil
  then show ?case by simp
next
  case (Cons c cs)
  from Cons.prems consider
    (here) "py_isspace c" "prefix kw cs" "\<exists>d ds. drop (length kw) cs = d # ds \<and> py_isspace d"
    | (later) "keyword_search kw cs"
    by (auto split: list.splits)
  then show ?case
  proof cases
    case here
    then obtain d ds where d: "drop (length kw) cs = d # ds" "py_isspace d" by blast
    from here(2) obtain r where r: "cs = kw @ r" by (auto simp: prefix_def)
    with d have "r = d # ds" by simp
    with r here(1) d(2) have "c # cs = [] @ c # kw @ d # ds \<and> py_isspace c \<and> py_isspace d"
      by simp
    then show ?thesis by blast
  next
    case later
    from Cons.IH [OF later] obtain pre a b post
      where "cs = pre @ a # kw @ b # post" "py_isspace a" "py_isspace b" by blast
    then have "c # cs = (c # pre) @ a # kw @ b # post \<and> py_isspace a \<and> py_isspace b"
      by simp
    then show ?thesis by blast
  qed
qed

lemma first_matching_matches:
  "first_matching ls s = Some l \<Longrightarrow> LogLevel_matches l s"
  by (induction ls) (auto split: if_splits)

section \<open>Properties of the pattern matcher\<close>

lemma find_first_Some:
  "find_first s e = Some k \<Longrightarrow> k + length e \<le> length s \<and> take (length e) (drop k s) = e"
proof (induction s arbitrary: k)
  case Nil
  then show ?case by (simp split: if_splits)
next
  case (Cons c cs)
  show ?case
  proof (cases "prefix e (c # cs)")
    case True
    with Cons.prems have "k = 0" by simp
    moreover from True obtain r where "c # cs = e @ r" by (auto simp: prefix_def)
    ultimately show ?thesis by (metis add_0 append_eq_conv_conj drop0 le_add1 length_append)
  next
    case False
    with Cons.prems obtain k' where k': "find_first cs e = Some k'" "k = Suc k'" by auto
    from Cons.IH [OF k'(1)] k'(2) show ?thesis by simp
  qed
qed

lemma py_find_Some:
  assumes "py_find s e i = Some k"
  shows "i \<le> k" and "k + length e \<le> length s" and "take (length e) (drop k s) = e"
proof -
  from assms obtain j where j: "find_first (drop i s) e = Some j" "k = j + i" "i \<le> length s"
    by (auto simp: py_find_def split: if_splits)
  from find_first_Some [OF j(1)]
  have "j + length e \<le> length s - i" "take (length e) (drop j (drop i s)) = e" by simp_all
  with j show "i \<le> k" "k + length e \<le> length s" "take (length e) (drop k s) = e"
    by (simp_all add: add.commute)
qed

lemma findAll_from_total:
  assumes "e \<noteq> []"
  shows "\<exists>r. findAll_from s e i = Some r \<and>
           (\<forall>k \<in> set r. i \<le> k \<and> k + length e \<le> length s \<and> take (length e) (drop k s) = e) \<and>
           sorted_wrt (\<lambda>a b. a + length e \<le> b) r"
proof (induction "Suc (length s) - i" arbitrary: i rule: less_induct)
  case less
  show ?case
  proof (cases "py_find s e i")
    case None
    then have "findAll_from s e i = Some []" by (subst findAll_from.simps) simp
    then show ?thesis by simp
  next
    case (Some k)
    note f = py_find_Some [OF Some]
    from assms have "0 < length e" by simp
    with f have "Suc (length s) - (k + length e) < Suc (length s) - i" by arith
    from less [OF this] obtain r where r: "findAll_from s e (k + length e) = Some r"
      "\<forall>j \<in> set r. k + length e \<le> j \<and> j + length e \<le> length s \<and> take (length e) (drop j s) = e"
      "sorted_wrt (\<lambda>a b. a + length e \<le> b) r" by blast
    from Some r(1) have "findAll_from s e i = Some (k # r)"
      by (subst findAll_from.simps) simp
    moreover have "\<forall>j \<in> set (k # r). i \<le> j \<and> j + length e \<le> length s \<and> take (length e) (drop j s) = e"
      using f r(2) by auto
    moreover have "sorted_wrt (\<lambda>a b. a + length e \<le> b) (k # r)"
      using r(2,3) by auto
    ultimately show ?thesis by blast
  qed
qed

lemma spans_ordered_sorted_wrt:
  "sorted_wrt (\<lambda>a b. snd a \<le> fst b) ms \<Longrightarrow> spans_ordered ms"
  by (induction ms rule: spans_ordered.induct) auto



lemma concat_map_length:
  "(\<And>x. x \<in> set xs \<Longrightarrow> 0 < length (f x)) \<Longrightarrow> length xs \<le> length (concat (map f xs))"
proof (induction xs)
  case Nil
  then show ?case by simp
next
  case (Cons x xs)
  from Cons.prems [of x] have "0 < length (f x)" by simp
  moreover from Cons.IH Cons.prems have "length xs \<le> length (concat (map f xs))" by simp
  ultimately show ?case by (cases "f x") auto
qed

lemma py_lower_length: "length s \<le> length (py_lower E s)"
proof -
  have "length [0..<length s] \<le>
        length (concat (map (\<lambda>i. case lower_at E s i of (c, cs) \<Rightarrow> c # cs) [0..<length s]))"
    by (rule concat_map_length) (simp split: prod.splits)
  then show ?thesis by (simp add: py_lower_def)
qed

lemma py_lower_nonempty: "s \<noteq> [] \<Longrightarrow> py_lower E s \<noteq> []"
  using py_lower_length [where s = s and E = E] by auto

lemma getAllMatches_literal:
  assumes "\<not> bRegex p" and "sPattern p \<noteq> []"
  shows "\<exists>offs. findAll (py_lower E s) (py_lower E (sPattern p)) = Some offs \<and>
           getAllMatches E p s = Inr (map (\<lambda>i. (i, i + iLen p)) offs, p)"
proof -
  from findAll_from_total [OF py_lower_nonempty [OF assms(2)], where s = "py_lower E s" and i = 0]
  obtain offs where "findAll (py_lower E s) (py_lower E (sPattern p)) = Some offs"
    by (auto simp: findAll_def)
  with assms show ?thesis by (simp add: getAllMatches_def)
qed

lemma getAllMatches_total:
  "\<exists>ms p'. getAllMatches E p s = Inr (ms, p') \<and> p' = p\<lparr>oRegex := oRegex p'\<rparr> \<and>
     (oRegex p' = oRegex p \<or> (oRegex p = None \<and> oRegex p' = re_compile E (sPattern p)))"
proof (cases "\<not> bRegex p \<and> sPattern p \<noteq> []")
  case True
  with getAllMatches_literal [where p = p and s = s and E = E] show ?thesis by auto
next
  case False
  then show ?thesis
    by (auto simp: getAllMatches_def split: option.splits)
qed

lemma literal_scan_ordered:
  "sorted_wrt (\<lambda>a b. snd a \<le> fst b) (literal_scan e i k s) \<and>
   (\<forall>x \<in> set (literal_scan e i k s). i + k \<le> fst x)"
proof (induction s arbitrary: i k)
  case Nil
  then show ?case by simp
next
  case (Cons c cs)
  show ?case
  proof (cases "k = 0 \<and> e \<noteq> [] \<and> prefix e (c # cs)")
    case True
    then have "0 < length e" by simp
    with True Cons [of "Suc i" "length e - 1"] show ?thesis by auto
  next
    case False
    with Cons [of "Suc i" "k - 1"] show ?thesis by auto
  qed
qed


lemma unicode_engine_ordered: "spans_ordered (re_finditer unicode_engine rx t)"
  using literal_scan_ordered [of rx 0 0 t]
  by (simp add: unicode_engine_def spans_ordered_sorted_wrt)




text \<open>
  With the same runtime, the capital sigma is not found at the end of a text where it
  stands after another letter: there its lower-case form is the final sigma.
\<close>

lemma final_sigma_not_found:
  "getAllMatches unicode_engine (Pattern_init [931] False) [913, 931] =
     Inr ([], Pattern_init [931] False) \<and>
   getAllMatches unicode_engine (Pattern_init [931] False) [931, 913] =
     Inr ([(0, 1)], Pattern_init [931] False)"
  by code_simp

text \<open>
  Claim C8. For a non-empty raw string that \<open>re.compile\<close> rejects, the pattern built in
  regex mode matches nothing: for every text \<open>matches\<close> returns false, \<open>getFirstMatch\<close>
  returns nothing and \<open>getAllMatches\<close> yields no span; each call returns (no error
  reaches the caller) and leaves the pattern as it was.
\<close>

theorem invalid_regex_matches_nothing:
  assumes "raw \<noteq> []" and "re_compile E raw = None"
  shows "matches E (Pattern_init raw True) s = Inr (False, Pattern_init raw True) \<and>
         getFirstMatch E (Pattern_init raw True) s = Inr (None, Pattern_init raw True) \<and>
         getAllMatches E (Pattern_init raw True) s = Inr ([], Pattern_init raw True)"
  using assms by (simp add: matches_def getFirstMatch_def getAllMatches_def Pattern_init_def)

text \<open>The theorem of C8 at the pattern \<open>(\<close>.\<close>

theorem invalid_regex_matches_nothing_witness:
  "re_compile example_engine ''('' = None \<and>
   matches example_engine (Pattern_init ''('' True) ''a (b)'' = Inr (False, Pattern_init ''('' True) \<and>
   getAllMatches example_engine (Pattern_init ''('' True) ''a (b)'' = Inr ([], Pattern_init ''('' True)"
proof -
  have h1: "''('' \<noteq> []" by simp
  have h2: "re_compile example_engine ''('' = None" by (simp add: example_engine_def)
  from invalid_regex_matches_nothing [OF h1 h2, of "''a (b)''"] h2 show ?thesis by simp
qed

section \<open>Properties of the classifier, continued\<close>

text \<open>
  Claim C10. \<open>getLogLevel\<close> returns a level only when the keyword of that level occurs in
  the text with a whitespace character right before it and right after it. So
  \<open>"ERROR boom"\<close>, where nothing precedes the keyword, and \<open>"x ERROR: boom"\<close>, where a colon
  follows it, have no level.
\<close>

theorem getLogLevel_needs_whitespace:
  "(getLogLevel s = Some l \<longrightarrow>
      (\<exists>pre a b post. s = pre @ a # keyword l @ b # post \<and> py_isspace a \<and> py_isspace b)) \<and>
   getLogLevel ''ERROR boom'' = None \<and> getLogLevel ''x ERROR: boom'' = None"
proof -
  have "\<exists>pre a b post. s = pre @ a # keyword l @ b # post \<and> py_isspace a \<and> py_isspace b"
    if "getLogLevel s = Some l"
    using that first_matching_matches [of lLogLevels s l] keyword_search_occurs [of "keyword l" s]
    by (simp add: getLogLevel_def LogLevel_matches_def)
  moreover have "getLogLevel ''ERROR boom'' = None"
    by (simp add: getLogLevel_def lLogLevels_def LogLevel_matches_def py_isspace_def)
  moreover have "getLogLevel ''x ERROR: boom'' = None"
    by (simp add: getLogLevel_def lLogLevels_def LogLevel_matches_def py_isspace_def)
  ultimately show ?thesis by blast
qed

text \<open>The theorem of C10 at a text that has the level Error.\<close>

theorem getLogLevel_needs_whitespace_witness:
  "getLogLevel ''x ERROR boom'' = Some Error \<and>
   (\<exists>pre a b post. ''x ERROR boom'' = pre @ a # keyword Error @ b # post \<and>
      py_isspace a \<and> py_isspace b)"
proof -
  have h: "getLogLevel ''x ERROR boom'' = Some Error"
    by (simp add: getLogLevel_def lLogLevels_def LogLevel_matches_def py_isspace_def)
  from getLogLevel_needs_whitespace [of "''x ERROR boom''" Error] h show ?thesis by blast
qed

section \<open>Properties of the view\<close>

lemma memo_okD:
  assumes "memo_ok E p0 p"
  obtains r where "p = p0\<lparr>oRegex := r\<rparr>" and "r = None \<or> r = re_compile E (sPattern p0)"
  using assms unfolding memo_ok_def by blast

lemma getAllMatches_memo:
  assumes "oRegex p0 = None" and "memo_ok E p0 p"
  shows "\<exists>ms p' p0'. getAllMatches E p s = Inr (ms, p') \<and> getAllMatches E p0 s = Inr (ms, p0') \<and>
           memo_ok E p0 p'"
proof -
  from assms(2) obtain r where p: "p = p0\<lparr>oRegex := r\<rparr>"
    and r: "r = None \<or> r = re_compile E (sPattern p0)" by (rule memo_okD)
  show ?thesis
  proof (cases "\<not> bRegex p0 \<and> sPattern p0 \<noteq> []")
    case True
    with getAllMatches_literal [where p = p and s = s and E = E]
      getAllMatches_literal [where p = p0 and s = s and E = E] assms(2)
    show ?thesis unfolding p by auto
  next
    case False
    then consider (empty) "sPattern p0 = []" | (regex) "sPattern p0 \<noteq> []" "bRegex p0" by blast
    then show ?thesis
    proof cases
      case empty
      with assms(2) show ?thesis unfolding p by (simp add: getAllMatches_def)
    next
      case regex
      show ?thesis
      proof (cases "re_compile E (sPattern p0)")
        case None
        with r have "r = None" by auto
        with None regex assms show ?thesis unfolding p by (simp add: getAllMatches_def)
      next
        case (Some rx)
        have ok: "memo_ok E p0 (p0\<lparr>oRegex := Some rx\<rparr>)"
          using Some by (simp add: memo_ok_def)
        from r consider "r = None" | "r = Some rx" using Some by auto
        then show ?thesis
        proof cases
          case 1
          with Some regex assms(1) ok show ?thesis unfolding p by (simp add: getAllMatches_def)
        next
          case 2
          with Some regex assms(1) ok show ?thesis unfolding p by (simp add: getAllMatches_def)
        qed
      qed
    qed
  qed
qed

lemma matches_memo:
  assumes "oRegex p0 = None" and "memo_ok E p0 p"
  shows "\<exists>p'. matches E p s = Inr (pattern_matches E p0 s, p') \<and> memo_ok E p0 p'"
proof -
  from assms(2) obtain r where p: "p = p0\<lparr>oRegex := r\<rparr>" by (rule memo_okD)
  then have same: "sPattern p = sPattern p0" by simp
  from getAllMatches_memo [OF assms, of s] obtain ms p' p0'
    where "getAllMatches E p s = Inr (ms, p')" "getAllMatches E p0 s = Inr (ms, p0')"
      "memo_ok E p0 p'" by blast
  with same assms(2) show ?thesis
    by (simp add: matches_def getFirstMatch_def pattern_matches_def)
qed

lemma memo_ok_refl: "oRegex p0 = None \<Longrightarrow> memo_ok E p0 p0"
  by (simp add: memo_ok_def)

lemma update_loop_project_with:
  assumes "oRegex p0 = None" and "memo_ok E p0 pat"
  shows "update_loop E disp pat n es = Inr (project_with disp (pattern_matches E p0) n es)"
  using assms(2)
proof (induction es arbitrary: pat n)
  case Nil
  then show ?case by simp
next
  case (Cons e es)
  from matches_memo [OF assms(1) Cons.prems, of "sText e"] obtain pat'
    where m: "matches E pat (sText e) = Inr (pattern_matches E p0 (sText e), pat')"
      and ok: "memo_ok E p0 pat'" by blast
  obtain e' ins n' where u: "update_expr disp (pattern_matches E p0 (sText e)) n e = (e', ins, n')"
    by (cases "update_expr disp (pattern_matches E p0 (sText e)) n e") auto
  from Cons.IH [OF ok, of n'] m u show ?case
    by (simp split: prod.splits)
qed

lemma oFilterPattern_fresh: "oRegex (oFilterPattern app) = None"
  by (simp add: oFilterPattern_def Pattern_init_def)

lemma updateLogWidget_eq:
  "updateLogWidget E app i =
     (if take i (lExpressions app) \<noteq> [] \<and> sEndIdx (last (take i (lExpressions app))) = None
      then Inl AttributeError
      else
        (let n = (if take i (lExpressions app) = [] then 1
                  else the (sEndIdx (last (take i (lExpressions app)))));
             r = project_with (levelDisplay app) (pattern_matches E (oFilterPattern app)) n
                   (drop i (lExpressions app))
         in Inr (app\<lparr>lExpressions := take i (lExpressions app) @ fst r\<rparr>,
                 Delete n # (if 1 < n then [Insert [NL] None] else []) @ snd r)))"
proof -
  have loop: "update_loop E (levelDisplay app) (oFilterPattern app) n es =
      Inr (project_with (levelDisplay app) (pattern_matches E (oFilterPattern app)) n es)" for n es
    by (rule update_loop_project_with [OF oFilterPattern_fresh memo_ok_refl [OF oFilterPattern_fresh]])
  show ?thesis
    by (simp add: updateLogWidget_def loop Let_def split: option.splits prod.splits)
qed

lemma update_expr_props:
  assumes "update_expr disp b n e = (e', ins, n')"
  shows "sText e' = sText e" and "oLogLevel e' = oLogLevel e"
    and "bDisplay e' = (b \<and> (oLogLevel e = None \<or> disp (the (oLogLevel e))))"
    and "ins = (if bDisplay e' then [insert_of e'] else [])"
    and "bDisplay e' \<Longrightarrow> sStartIdx e' = Some n \<and> sEndIdx e' = Some n' \<and> n < n'"
    and "\<not> bDisplay e' \<Longrightarrow> n' = n"
    and "update_expr disp b n e' = (e', ins, n')"
  using assms
  by (auto simp: update_expr_def Let_def insert_of_def split: if_splits option.splits)

lemma project_with_fields:
  "map sText (fst (project_with disp m n es)) = map sText es \<and>
   map oLogLevel (fst (project_with disp m n es)) = map oLogLevel es \<and>
   map bDisplay (fst (project_with disp m n es)) =
     map (\<lambda>e. m (sText e) \<and> (oLogLevel e = None \<or> disp (the (oLogLevel e)))) es"
proof (induction es arbitrary: n)
  case Nil
  then show ?case by simp
next
  case (Cons e es)
  obtain e' ins n' where u: "update_expr disp (m (sText e)) n e = (e', ins, n')"
    by (cases "update_expr disp (m (sText e)) n e") auto
  from Cons [of n'] update_expr_props(1-3) [OF u] u show ?case
    by (auto split: prod.splits)
qed

lemma project_with_length: "length (fst (project_with disp m n es)) = length es"
  using project_with_fields [of disp m n es] by (metis length_map)

lemma project_with_calls:
  "snd (project_with disp m n es) = map insert_of (filter bDisplay (fst (project_with disp m n es)))"
proof (induction es arbitrary: n)
  case Nil
  then show ?case by simp
next
  case (Cons e es)
  obtain e' ins n' where u: "update_expr disp (m (sText e)) n e = (e', ins, n')"
    by (cases "update_expr disp (m (sText e)) n e") auto
  from Cons [of n'] update_expr_props(4) [OF u] u show ?case
    by (auto split: prod.splits)
qed

lemma project_with_contiguous:
  "ranges_contiguous_from n (fst (project_with disp m n es))"
proof (induction es arbitrary: n)
  case Nil
  then show ?case by simp
next
  case (Cons e es)
  obtain e' ins n' where u: "update_expr disp (m (sText e)) n e = (e', ins, n')"
    by (cases "update_expr disp (m (sText e)) n e") auto
  from Cons [of n'] update_expr_props(5,6) [OF u] u show ?case
    by (auto split: prod.splits)
qed

lemma project_with_idem:
  "project_with disp m n (fst (project_with disp m n es)) = project_with disp m n es"
proof (induction es arbitrary: n)
  case Nil
  then show ?case by simp
next
  case (Cons e es)
  obtain e' ins n' where u: "update_expr disp (m (sText e)) n e = (e', ins, n')"
    by (cases "update_expr disp (m (sText e)) n e") auto
  obtain es' calls where r: "project_with disp m n' es = (es', calls)"
    by (cases "project_with disp m n' es") auto
  from Cons [of n'] r have "project_with disp m n' es' = (es', calls)" by simp
  with update_expr_props(1,7) [OF u] u r show ?case by simp
qed

lemma pattern_matches_empty: "sPattern p = [] \<Longrightarrow> pattern_matches E p s"
  by (simp add: pattern_matches_def matches_def)

lemma updateLogWidget_result:
  assumes ok: "take i (lExpressions app) = [] \<or> sEndIdx (last (take i (lExpressions app))) \<noteq> None"
  obtains n r where
    "updateLogWidget E app i =
       Inr (app\<lparr>lExpressions := take i (lExpressions app) @ fst r\<rparr>,
            Delete n # (if 1 < n then [Insert [NL] None] else []) @ snd r)"
    and "r = project_with (levelDisplay app) (pattern_matches E (oFilterPattern app)) n
               (drop i (lExpressions app))"
    and "n = (if take i (lExpressions app) = [] then 1
              else the (sEndIdx (last (take i (lExpressions app)))))"
  using ok by (auto simp: updateLogWidget_eq [of E app i] Let_def)

lemma take_take_append:
  "length ys = length (drop i xs) \<Longrightarrow> take i (take i xs @ ys) = take i xs"
  by (cases "i \<le> length xs") auto

lemma drop_take_append:
  "length ys = length (drop i xs) \<Longrightarrow> drop i (take i xs @ ys) = ys"
  by (cases "i \<le> length xs") auto

text \<open>
  When the expression before the start index \<open>i\<close>, if there is one, has an end index,
  \<open>updateLogWidget\<close> returns, keeps the expressions before \<open>i\<close>
  and the text and level of all, and sets \<open>bDisplay\<close> of every expression at or after \<open>i\<close>
  to: the filter pattern matches its text, and it has no level or its level is displayed.
  After the deletion from the start line, the widget receives one insertion per displayed
  expression at or after \<open>i\<close>, in order, of the text and a newline, tagged with the level
  when there is one; an expression that is not displayed is not inserted.
\<close>

lemma updateLogWidget_visibility:
  assumes ok: "take i (lExpressions app) = [] \<or> sEndIdx (last (take i (lExpressions app))) \<noteq> None"
  shows "\<exists>app' n. updateLogWidget E app i =
             Inr (app', Delete n # (if 1 < n then [Insert [NL] None] else []) @
                    map (\<lambda>e. Insert (sText e @ [NL]) (map_option sTag (oLogLevel e)))
                      (filter bDisplay (drop i (lExpressions app')))) \<and>
           length (lExpressions app') = length (lExpressions app) \<and>
           take i (lExpressions app') = take i (lExpressions app) \<and>
           (\<forall>k. i \<le> k \<and> k < length (lExpressions app) \<longrightarrow>
              sText (lExpressions app' ! k) = sText (lExpressions app ! k) \<and>
              oLogLevel (lExpressions app' ! k) = oLogLevel (lExpressions app ! k) \<and>
              bDisplay (lExpressions app' ! k) =
                (pattern_matches E (oFilterPattern app) (sText (lExpressions app ! k)) \<and>
                 (oLogLevel (lExpressions app ! k) = None \<or>
                  levelDisplay app (the (oLogLevel (lExpressions app ! k))))))"
proof -
  let ?xs = "lExpressions app"
  from ok obtain n r where res: "updateLogWidget E app i =
       Inr (app\<lparr>lExpressions := take i ?xs @ fst r\<rparr>,
            Delete n # (if 1 < n then [Insert [NL] None] else []) @ snd r)"
    and r: "r = project_with (levelDisplay app) (pattern_matches E (oFilterPattern app)) n
               (drop i ?xs)"
    by (rule updateLogWidget_result)
  let ?ys = "take i ?xs @ fst r"
  have len: "length (fst r) = length (drop i ?xs)"
    unfolding r by (rule project_with_length)
  have calls: "snd r = map insert_of (filter bDisplay (fst r))"
    unfolding r by (rule project_with_calls)
  have fields: "map sText (fst r) = map sText (drop i ?xs)"
    "map oLogLevel (fst r) = map oLogLevel (drop i ?xs)"
    "map bDisplay (fst r) =
       map (\<lambda>e. pattern_matches E (oFilterPattern app) (sText e) \<and>
                 (oLogLevel e = None \<or> levelDisplay app (the (oLogLevel e)))) (drop i ?xs)"
    unfolding r using project_with_fields by blast+
  have 1: "length ?ys = length ?xs" using len by simp
  have 2: "take i ?ys = take i ?xs" using len by (rule take_take_append)
  have 3: "drop i ?ys = fst r" using len by (rule drop_take_append)
  have 4: "sText (?ys ! k) = sText (?xs ! k) \<and> oLogLevel (?ys ! k) = oLogLevel (?xs ! k) \<and>
           bDisplay (?ys ! k) =
             (pattern_matches E (oFilterPattern app) (sText (?xs ! k)) \<and>
              (oLogLevel (?xs ! k) = None \<or> levelDisplay app (the (oLogLevel (?xs ! k)))))"
    if k: "i \<le> k" "k < length ?xs" for k
  proof -
    from k have j: "k - i < length (drop i ?xs)" "k - i < length (fst r)" using len by simp_all
    from k have y: "?ys ! k = fst r ! (k - i)" by (simp add: nth_append)
    from k have x: "?xs ! k = drop i ?xs ! (k - i)" by simp
    from fields(1) j have "sText (fst r ! (k - i)) = sText (drop i ?xs ! (k - i))"
      by (metis nth_map)
    moreover from fields(2) j have "oLogLevel (fst r ! (k - i)) = oLogLevel (drop i ?xs ! (k - i))"
      by (metis nth_map)
    moreover from j have "bDisplay (fst r ! (k - i)) = map bDisplay (fst r) ! (k - i)"
      by simp
    ultimately show ?thesis unfolding y x using j(1) by (simp add: fields(3))
  qed
  show ?thesis
    using res 1 2 3 4 calls by (simp add: insert_of_def [abs_def])
qed

text \<open>
  Claim C5, amended. A second call of \<open>updateLogWidget\<close> with the same start index, right
  after a first one and with nothing changed in between, leaves the state as the first
  call left it and makes the same calls on the widget again. These calls are never empty:
  the deletion from the start line (line 1, or the end line of the expression before the
  start index), then the insertion of a bare newline when the start line is above 1, then
  one insertion per displayed expression from the start index on.
\<close>

theorem updateLogWidget_twice:
  assumes "updateLogWidget E app i = Inr (app', calls)"
  shows "updateLogWidget E app' i = Inr (app', calls) \<and>
         (\<exists>n. (take i (lExpressions app') = [] \<and> n = 1 \<or>
               take i (lExpressions app') \<noteq> [] \<and>
               sEndIdx (last (take i (lExpressions app'))) = Some n) \<and>
              calls = Delete n # (if 1 < n then [Insert [NL] None] else []) @
                      map (\<lambda>e. Insert (sText e @ [NL]) (map_option sTag (oLogLevel e)))
                        (filter bDisplay (drop i (lExpressions app'))))"
proof -
  let ?xs = "lExpressions app"
  from assms have ok: "take i ?xs = [] \<or> sEndIdx (last (take i ?xs)) \<noteq> None"
    by (auto simp: updateLogWidget_eq [of E app i] split: if_splits)
  then obtain n r where res: "updateLogWidget E app i =
       Inr (app\<lparr>lExpressions := take i ?xs @ fst r\<rparr>,
            Delete n # (if 1 < n then [Insert [NL] None] else []) @ snd r)"
    and r: "r = project_with (levelDisplay app) (pattern_matches E (oFilterPattern app)) n
               (drop i ?xs)"
    and n: "n = (if take i ?xs = [] then 1 else the (sEndIdx (last (take i ?xs))))"
    by (rule updateLogWidget_result)
  from res assms have app': "app' = app\<lparr>lExpressions := take i ?xs @ fst r\<rparr>"
    and calls: "calls = Delete n # (if 1 < n then [Insert [NL] None] else []) @ snd r" by simp_all
  have len: "length (fst r) = length (drop i ?xs)"
    unfolding r by (rule project_with_length)
  have t: "take i (lExpressions app') = take i ?xs"
    unfolding app' using take_take_append [OF len] by simp
  have d: "drop i (lExpressions app') = fst r"
    unfolding app' using drop_take_append [OF len] by simp
  have same: "levelDisplay app' = levelDisplay app"
    "pattern_matches E (oFilterPattern app') = pattern_matches E (oFilterPattern app)"
    unfolding app' by (simp_all add: oFilterPattern_def)
  have idem: "project_with (levelDisplay app) (pattern_matches E (oFilterPattern app)) n (fst r) = r"
    unfolding r by (rule project_with_idem)
  from ok t have ok': "take i (lExpressions app') = [] \<or>
      sEndIdx (last (take i (lExpressions app'))) \<noteq> None" by simp
  then obtain n2 r2 where res2: "updateLogWidget E app' i =
       Inr (app'\<lparr>lExpressions := take i (lExpressions app') @ fst r2\<rparr>,
            Delete n2 # (if 1 < n2 then [Insert [NL] None] else []) @ snd r2)"
    and r2: "r2 = project_with (levelDisplay app') (pattern_matches E (oFilterPattern app')) n2
               (drop i (lExpressions app'))"
    and n2: "n2 = (if take i (lExpressions app') = [] then 1
                   else the (sEndIdx (last (take i (lExpressions app')))))"
    by (rule updateLogWidget_result)
  from n n2 t have "n2 = n" by simp
  with r2 d same idem have "r2 = r" by simp
  have "app'\<lparr>lExpressions := take i (lExpressions app') @ fst r\<rparr> = app'"
    unfolding t unfolding app' by simp
  with res2 \<open>n2 = n\<close> \<open>r2 = r\<close> calls
  have again: "updateLogWidget E app' i = Inr (app', calls)" by simp
  have "snd r = map insert_of (filter bDisplay (fst r))"
    unfolding r by (rule project_with_calls)
  with calls d have script: "calls = Delete n # (if 1 < n then [Insert [NL] None] else []) @
      map (\<lambda>e. Insert (sText e @ [NL]) (map_option sTag (oLogLevel e)))
        (filter bDisplay (drop i (lExpressions app')))"
    by (simp add: insert_of_def [abs_def])
  from ok t n have "take i (lExpressions app') = [] \<and> n = 1 \<or>
      take i (lExpressions app') \<noteq> [] \<and> sEndIdx (last (take i (lExpressions app'))) = Some n"
    by auto
  with again script show ?thesis by blast
qed

lemma example_first_append:
  "doProcess example_engine (Application_init\<lparr>oQueue := [''2024-01-01 ERROR a'']\<rparr>) =
     Inr (example_app, [Delete 1, Insert (''2024-01-01 ERROR a'' @ [NL]) (Some ''LogLevel:Error'')])"
  by (simp add: doProcess_def Application_init_def py_splitlines_def py_linebreak_def
      appendLogLines_def oLogLineRegex_search_def py_isdigit_def getLogLevel_def lLogLevels_def
      LogLevel_matches_def py_isspace_def Expression_init_def updateLogWidget_eq
      pattern_matches_empty oFilterPattern_def Pattern_init_def update_expr_def sTag_def
      example_app_def example_expr_def)

lemma example_projection:
  "updateLogWidget example_engine example_app 0 =
     Inr (example_app, [Delete 1, Insert (''2024-01-01 ERROR a'' @ [NL]) (Some ''LogLevel:Error'')])"
  by (simp add: Application_init_def updateLogWidget_eq
      pattern_matches_empty oFilterPattern_def Pattern_init_def update_expr_def sTag_def
      example_app_def example_expr_def)

section \<open>Runs of the model\<close>

lemmas run_defs = doProcess_def Application_init_def py_splitlines_def py_linebreak_def
      appendLogLines_def oLogLineRegex_search_def py_isdigit_def getLogLevel_def lLogLevels_def
      LogLevel_matches_def py_isspace_def Expression_init_def updateLogWidget_eq
      pattern_matches_empty oFilterPattern_def Pattern_init_def update_expr_def sTag_def
      setLogLevelDisplay_def

text \<open>
  Claim C4 fails on this run: two lines are appended, the level Info is switched off, a
  third line is appended. The last projection starts at index 2, right after the hidden
  expression, and takes its start line from the end index that expression kept from the
  time it was displayed: the new expression is put at line 3, while the displayed
  expression before it ends at line 2.
\<close>

theorem stale_range_breaks_contiguity:
  "doProcess example_engine
     (Application_init\<lparr>oQueue := [''2024-01-01 ERROR a'' @ [NL] @ ''2024-01-02 INFO b'' @ [NL]]\<rparr>) =
     Inr (two_app,
          [Delete 1, Insert (''2024-01-01 ERROR a'' @ [NL]) (Some ''LogLevel:Error''),
           Insert (''2024-01-02 INFO b'' @ [NL]) (Some ''LogLevel:Info'')]) \<and>
   setLogLevelDisplay example_engine two_app Info False =
     Inr (hidden_app, [Delete 1, Insert (''2024-01-01 ERROR a'' @ [NL]) (Some ''LogLevel:Error'')]) \<and>
   doProcess example_engine (hidden_app\<lparr>oQueue := [''2024-01-03 ERROR c'' @ [NL]]\<rparr>) =
     Inr (broken_app,
          [Delete 3, Insert [NL] None,
           Insert (''2024-01-03 ERROR c'' @ [NL]) (Some ''LogLevel:Error'')]) \<and>
   \<not> ranges_contiguous_from 1 (lExpressions broken_app)"
proof -
  have 1: "doProcess example_engine
     (Application_init\<lparr>oQueue := [''2024-01-01 ERROR a'' @ [NL] @ ''2024-01-02 INFO b'' @ [NL]]\<rparr>) =
     Inr (two_app,
          [Delete 1, Insert (''2024-01-01 ERROR a'' @ [NL]) (Some ''LogLevel:Error''),
           Insert (''2024-01-02 INFO b'' @ [NL]) (Some ''LogLevel:Info'')])"
    by (simp add: run_defs two_app_def)
  have 2: "setLogLevelDisplay example_engine two_app Info False =
     Inr (hidden_app, [Delete 1, Insert (''2024-01-01 ERROR a'' @ [NL]) (Some ''LogLevel:Error'')])"
    by (simp add: run_defs two_app_def hidden_app_def)
  have 3: "doProcess example_engine (hidden_app\<lparr>oQueue := [''2024-01-03 ERROR c'' @ [NL]]\<rparr>) =
     Inr (broken_app,
          [Delete 3, Insert [NL] None,
           Insert (''2024-01-03 ERROR c'' @ [NL]) (Some ''LogLevel:Error'')])"
    by (simp add: run_defs hidden_app_def broken_app_def)
  have 4: "\<not> ranges_contiguous_from 1 (lExpressions broken_app)"
    by (simp add: broken_app_def Application_init_def)
  from 1 2 3 4 show ?thesis by blast
qed

text \<open>
  When the hidden expression before the start index was never displayed, it has no end
  index and the projection raises.
\<close>

lemma missing_range_raises:
  "setLogLevelDisplay example_engine Application_init Info False =
     Inr (Application_init\<lparr>levelDisplay := (\<lambda>_. True)(Info := False)\<rparr>, [Delete 1]) \<and>
   doProcess example_engine
     (Application_init\<lparr>levelDisplay := (\<lambda>_. True)(Info := False),
                        oQueue := [''2024-01-01 INFO a'']\<rparr>) =
     Inr (Application_init\<lparr>levelDisplay := (\<lambda>_. True)(Info := False),
            lExpressions := [\<lparr>sText = ''2024-01-01 INFO a'', oLogLevel = Some Info,
                               sStartIdx = None, sEndIdx = None, bDisplay = False\<rparr>]\<rparr>,
          [Delete 1]) \<and>
   doProcess example_engine
     (Application_init\<lparr>levelDisplay := (\<lambda>_. True)(Info := False),
            lExpressions := [\<lparr>sText = ''2024-01-01 INFO a'', oLogLevel = Some Info,
                               sStartIdx = None, sEndIdx = None, bDisplay = False\<rparr>],
            oQueue := [''2024-01-02 ERROR b'']\<rparr>) = Inl AttributeError"
  by (simp add: run_defs)

text \<open>
  Claim C1 fails on this run: the level Info is switched off, a line of that level is
  appended, then a line of the level Error. The second line becomes a new expression at
  index 1, which is the start index passed on. The filter matches its text and its level
  is displayed, so the claim has it recomputed as visible and appended to the widget. But
  the expression before it was never displayed and has no end index: \<open>updateLogWidget\<close>
  raises before it recomputes or inserts anything.
\<close>

theorem projection_raises_after_hidden_record:
  "setLogLevelDisplay example_engine Application_init Info False =
     Inr (Application_init\<lparr>levelDisplay := (\<lambda>_. True)(Info := False)\<rparr>, [Delete 1]) \<and>
   doProcess example_engine
     (Application_init\<lparr>levelDisplay := (\<lambda>_. True)(Info := False),
                        oQueue := [''2024-01-01 INFO a'']\<rparr>) =
     Inr (never_shown_app, [Delete 1]) \<and>
   append_loop 0 [''2024-01-02 ERROR b''] (lExpressions never_shown_app, 1) =
     (lExpressions never_shown_app @ [Expression_init ''2024-01-02 ERROR b'' (Some Error)], 1) \<and>
   pattern_matches example_engine (oFilterPattern never_shown_app) ''2024-01-02 ERROR b'' \<and>
   levelDisplay never_shown_app Error \<and>
   updateLogWidget example_engine
     (never_shown_app\<lparr>lExpressions :=
        lExpressions never_shown_app @ [Expression_init ''2024-01-02 ERROR b'' (Some Error)]\<rparr>) 1 =
     Inl AttributeError \<and>
   doProcess example_engine (never_shown_app\<lparr>oQueue := [''2024-01-02 ERROR b'']\<rparr>) =
     Inl AttributeError"
proof -
  have 1: "setLogLevelDisplay example_engine Application_init Info False =
     Inr (Application_init\<lparr>levelDisplay := (\<lambda>_. True)(Info := False)\<rparr>, [Delete 1])"
    by (simp add: run_defs)
  have 2: "doProcess example_engine
     (Application_init\<lparr>levelDisplay := (\<lambda>_. True)(Info := False),
                        oQueue := [''2024-01-01 INFO a'']\<rparr>) =
     Inr (never_shown_app, [Delete 1])"
    by (simp add: run_defs never_shown_app_def)
  have 3: "append_loop 0 [''2024-01-02 ERROR b''] (lExpressions never_shown_app, 1) =
     (lExpressions never_shown_app @ [Expression_init ''2024-01-02 ERROR b'' (Some Error)], 1)"
    by (simp add: run_defs never_shown_app_def)
  have 4: "pattern_matches example_engine (oFilterPattern never_shown_app) ''2024-01-02 ERROR b''"
    by (simp add: run_defs never_shown_app_def)
  have 5: "levelDisplay never_shown_app Error"
    by (simp add: never_shown_app_def Application_init_def)
  have 6: "updateLogWidget example_engine
     (never_shown_app\<lparr>lExpressions :=
        lExpressions never_shown_app @ [Expression_init ''2024-01-02 ERROR b'' (Some Error)]\<rparr>) 1 =
     Inl AttributeError"
    by (simp add: run_defs never_shown_app_def)
  have 7: "doProcess example_engine (never_shown_app\<lparr>oQueue := [''2024-01-02 ERROR b'']\<rparr>) =
     Inl AttributeError"
    by (simp add: run_defs never_shown_app_def)
  from 1 2 3 4 5 6 7 show ?thesis by blast
qed

text \<open>
  A full projection (start index 0) always returns and leaves contiguous ranges: only a
  partial projection can start after a hidden expression.
\<close>

lemma full_projection_contiguous:
  "\<exists>app' calls. updateLogWidget E app 0 = Inr (app', calls) \<and>
     ranges_contiguous_from 1 (lExpressions app')"
proof -
  have "take 0 (lExpressions app) = [] \<or> sEndIdx (last (take 0 (lExpressions app))) \<noteq> None"
    by simp
  then obtain n r where res: "updateLogWidget E app 0 =
       Inr (app\<lparr>lExpressions := take 0 (lExpressions app) @ fst r\<rparr>,
            Delete n # (if 1 < n then [Insert [NL] None] else []) @ snd r)"
    and r: "r = project_with (levelDisplay app) (pattern_matches E (oFilterPattern app)) n
               (drop 0 (lExpressions app))"
    and n: "n = (if take 0 (lExpressions app) = [] then 1
              else the (sEndIdx (last (take 0 (lExpressions app)))))"
    by (rule updateLogWidget_result)
  from n have "n = 1" by simp
  with r have "ranges_contiguous_from 1 (fst r)" by (simp add: project_with_contiguous)
  with res show ?thesis by simp
qed

text \<open>
  Claim C6 fails on this input: the line \<open>note ERROR here\<close> does not start with a date; it
  arrives on an empty list, becomes the first expression, and has the level Error.
\<close>

theorem promoted_line_is_classified:
  "\<not> oLogLineRegex_search ''note ERROR here'' \<and>
   doProcess example_engine (Application_init\<lparr>oQueue := [''note ERROR here'']\<rparr>) =
     Inr (Application_init\<lparr>lExpressions :=
            [\<lparr>sText = ''note ERROR here'', oLogLevel = Some Error, sStartIdx = Some 1,
               sEndIdx = Some 2, bDisplay = True\<rparr>]\<rparr>,
          [Delete 1, Insert (''note ERROR here'' @ [NL]) (Some ''LogLevel:Error'')])"
  by (simp add: run_defs)

text \<open>The lemma on the visibility at the second of two displayed expressions.\<close>

lemma updateLogWidget_visibility_witness:
  "(take 1 (lExpressions two_app) = [] \<or> sEndIdx (last (take 1 (lExpressions two_app))) \<noteq> None) \<and>
   (\<exists>app'. updateLogWidget example_engine two_app 1 =
      Inr (app', [Delete 2, Insert [NL] None,
                  Insert (''2024-01-02 INFO b'' @ [NL]) (Some ''LogLevel:Info'')]) \<and>
      bDisplay (lExpressions app' ! 1))"
proof -
  have h: "take 1 (lExpressions two_app) = [] \<or>
           sEndIdx (last (take 1 (lExpressions two_app))) \<noteq> None"
    by (simp add: two_app_def Application_init_def)
  have e: "updateLogWidget example_engine two_app 1 =
      Inr (two_app, [Delete 2, Insert [NL] None,
                     Insert (''2024-01-02 INFO b'' @ [NL]) (Some ''LogLevel:Info'')])"
    by (simp add: run_defs two_app_def)
  from updateLogWidget_visibility [OF h, of example_engine] e
  have "bDisplay (lExpressions two_app ! 1) =
          (pattern_matches example_engine (oFilterPattern two_app)
             (sText (lExpressions two_app ! 1)) \<and>
           (oLogLevel (lExpressions two_app ! 1) = None \<or>
            levelDisplay two_app (the (oLogLevel (lExpressions two_app ! 1)))))"
    by (auto simp: two_app_def Application_init_def)
  then have "bDisplay (lExpressions two_app ! 1)"
    by (simp add: two_app_def Application_init_def)
  with h e show ?thesis by simp
qed

text \<open>
  Claim C5 as stated fails: after a line was appended and displayed, a second call of
  \<open>updateLogWidget\<close> with nothing changed deletes the widget's content again and inserts
  the expression again.
\<close>

theorem second_projection_not_empty:
  "doProcess example_engine (Application_init\<lparr>oQueue := [''2024-01-01 ERROR a'']\<rparr>) =
     Inr (example_app, [Delete 1, Insert (''2024-01-01 ERROR a'' @ [NL]) (Some ''LogLevel:Error'')]) \<and>
   updateLogWidget example_engine example_app 0 =
     Inr (example_app, [Delete 1, Insert (''2024-01-01 ERROR a'' @ [NL]) (Some ''LogLevel:Error'')])"
  by (simp add: run_defs example_app_def example_expr_def)

text \<open>The theorem of C5 at a partial projection of two expressions.\<close>

theorem updateLogWidget_twice_witness:
  "updateLogWidget example_engine two_app 1 =
      Inr (two_app, [Delete 2, Insert [NL] None,
                     Insert (''2024-01-02 INFO b'' @ [NL]) (Some ''LogLevel:Info'')]) \<and>
   sEndIdx (last (take 1 (lExpressions two_app))) = Some 2 \<and>
   [Delete 2, Insert [NL] None, Insert (''2024-01-02 INFO b'' @ [NL]) (Some ''LogLevel:Info'')] =
     Delete 2 # [Insert [NL] None] @
       map (\<lambda>e. Insert (sText e @ [NL]) (map_option sTag (oLogLevel e)))
         (filter bDisplay (drop 1 (lExpressions two_app)))"
proof -
  have e: "updateLogWidget example_engine two_app 1 =
      Inr (two_app, [Delete 2, Insert [NL] None,
                     Insert (''2024-01-02 INFO b'' @ [NL]) (Some ''LogLevel:Info'')])"
    by (simp add: run_defs two_app_def)
  have l: "sEndIdx (last (take 1 (lExpressions two_app))) = Some 2"
    "take 1 (lExpressions two_app) \<noteq> []"
    by (simp_all add: two_app_def Application_init_def)
  from updateLogWidget_twice [OF e] l show ?thesis by auto
qed

lemma updateLogWidget_texts:
  assumes "take i (lExpressions app) = [] \<or> sEndIdx (last (take i (lExpressions app))) \<noteq> None"
  shows "\<exists>app' calls. updateLogWidget E app i = Inr (app', calls) \<and>
           map sText (lExpressions app') = map sText (lExpressions app) \<and>
           map oLogLevel (lExpressions app') = map oLogLevel (lExpressions app)"
proof -
  let ?xs = "lExpressions app"
  from assms obtain n r where res: "updateLogWidget E app i =
       Inr (app\<lparr>lExpressions := take i ?xs @ fst r\<rparr>,
            Delete n # (if 1 < n then [Insert [NL] None] else []) @ snd r)"
    and r: "r = project_with (levelDisplay app) (pattern_matches E (oFilterPattern app)) n
               (drop i ?xs)"
    by (rule updateLogWidget_result)
  have "map sText (fst r) = map sText (drop i ?xs)"
    "map oLogLevel (fst r) = map oLogLevel (drop i ?xs)"
    unfolding r using project_with_fields by blast+
  then have "map sText (take i ?xs @ fst r) = map sText ?xs"
    "map oLogLevel (take i ?xs @ fst r) = map oLogLevel ?xs"
    by (simp_all flip: take_map drop_map)
  with res show ?thesis by simp
qed

text \<open>
  Claim C2. From a state without expressions, one tick of the queue processing on the single
  chunk of the scenario returns and leaves exactly two expressions: the first has the text
  of the first two lines joined by a newline and the level Info, the second has the third
  line as its text and the level Error.
\<close>

theorem scenario_chunk_two_records:
  assumes "lExpressions app = []" and "bProcessQueue app"
    and "oQueue app = [''2024-01-01 INFO start'' @ [NL] @ ''extra line'' @ [NL] @
                        ''2024-01-02 ERROR boom'' @ [NL]]"
  shows "\<exists>app' calls. doProcess E app = Inr (app', calls) \<and>
           map sText (lExpressions app') =
             [''2024-01-01 INFO start'' @ [NL] @ ''extra line'', ''2024-01-02 ERROR boom''] \<and>
           map oLogLevel (lExpressions app') = [Some Info, Some Error]"
proof -
  let ?new = "[Expression_init ''2024-01-01 INFO start'' (Some Info)
                 \<lparr>sText := ''2024-01-01 INFO start'' @ [NL] @ ''extra line''\<rparr>,
               Expression_init ''2024-01-02 ERROR boom'' (Some Error)]"
  let ?app1 = "app\<lparr>oQueue := [], lExpressions := ?new\<rparr>"
  have step: "doProcess E app = updateLogWidget E ?app1 0"
    using assms
    by (simp add: doProcess_def py_splitlines_def py_linebreak_def
        appendLogLines_def oLogLineRegex_search_def py_isdigit_def getLogLevel_def lLogLevels_def
        LogLevel_matches_def py_isspace_def Expression_init_def)
  have "take 0 (lExpressions ?app1) = [] \<or> sEndIdx (last (take 0 (lExpressions ?app1))) \<noteq> None"
    by simp
  from updateLogWidget_texts [OF this, of E] step show ?thesis
    by (simp add: Expression_init_def)
qed

text \<open>The theorem of C2 at the initial state.\<close>

theorem scenario_chunk_two_records_witness:
  "\<exists>app' calls.
     doProcess example_engine
       (Application_init\<lparr>oQueue := [''2024-01-01 INFO start'' @ [NL] @ ''extra line'' @ [NL] @
                                      ''2024-01-02 ERROR boom'' @ [NL]]\<rparr>) = Inr (app', calls) \<and>
     map sText (lExpressions app') =
       [''2024-01-01 INFO start'' @ [NL] @ ''extra line'', ''2024-01-02 ERROR boom''] \<and>
     map oLogLevel (lExpressions app') = [Some Info, Some Error]"
  by (rule scenario_chunk_two_records) (simp_all add: Application_init_def)

text \<open>
  Claim C9, amended. When the path is not a regular file, \<open>openNewSourceFile\<close> shows the
  warning \<open>File not found\<close> and returns: no watch starts, and the expressions, the widget,
  the queue, the running watch and the list of recent files stay as they were.
\<close>

theorem missing_file_keeps_state:
  assumes "\<not> isfile (normpath sFilePath)"
  shows "openNewSourceFile normpath isfile app sFilePath =
           Some (app, [ShowWarning ''File not found'' (''File not found:'' @ [NL] @ normpath sFilePath)])"
  using assms by (subst openNewSourceFile.simps) simp

text \<open>The theorem of C9 at a path of a file system without files.\<close>

theorem missing_file_keeps_state_witness:
  "\<not> no_file (same_path ''missing.log'') \<and>
   openNewSourceFile same_path no_file two_app ''missing.log'' =
     Some (two_app, [ShowWarning ''File not found'' (''File not found:'' @ [NL] @ ''missing.log'')])"
proof -
  have h: "\<not> no_file (same_path ''missing.log'')" by (simp add: no_file_def)
  from missing_file_keeps_state [of no_file same_path, OF h, of two_app] h show ?thesis
    by (simp add: same_path_def)
qed

text \<open>
  Claim C9 as stated fails: opening a missing file from a state with one expression leaves
  that expression in place and makes no call on the widget.
\<close>

theorem missing_file_does_not_clear:
  "openNewSourceFile same_path no_file example_app ''missing.log'' =
     Some (example_app,
           [ShowWarning ''File not found'' (''File not found:'' @ [NL] @ ''missing.log'')]) \<and>
   lExpressions example_app = [example_expr]"
  by (subst openNewSourceFile.simps)
    (simp add: no_file_def same_path_def example_app_def)

text \<open>
  When the file exists and \<open>normpath\<close> leaves a normalised path as it is, the call returns
  with the log cleared and the watch started on the file. When the path is new to the
  source menu, the call made through the menu has cleared the log and started a watch
  before: the widget is cleared twice.
\<close>

lemma existing_file_clears:
  assumes isf: "isfile (normpath sFilePath)"
    and idem: "normpath (normpath sFilePath) = normpath sFilePath"
  shows "\<exists>app'. openNewSourceFile normpath isfile app sFilePath =
             Some (app', if normpath sFilePath = oSourceMenuValue app
                         then [Delete 1] else [Delete 1, Delete 1]) \<and>
           lExpressions app' = [] \<and> oQueue app' = [] \<and>
           oFileWatchThread app' = Some (normpath sFilePath) \<and> bWatchFile app' \<and>
           hd (lRecentSourceFiles app') = normpath sFilePath \<and>
           oSourceMenuValue app' = normpath sFilePath"
proof -
  let ?P = "normpath sFilePath"
  have inner: "\<exists>a'. openNewSourceFile normpath isfile a ?P = Some (a', [Delete 1]) \<and>
           lExpressions a' = [] \<and> oQueue a' = [] \<and> oFileWatchThread a' = Some ?P \<and>
           bWatchFile a' \<and> hd (lRecentSourceFiles a') = ?P \<and> oSourceMenuValue a' = ?P"
    if "oSourceMenuValue a = ?P" for a
    using that isf idem
    by (subst openNewSourceFile.simps)
      (simp add: Let_def startFileWatch_def clearLog_def stopFileWatch_def)
  show ?thesis
  proof (cases "?P = oSourceMenuValue app")
    case True
    then show ?thesis using isf
      by (subst openNewSourceFile.simps)
        (simp add: Let_def startFileWatch_def clearLog_def stopFileWatch_def)
  next
    case False
    let ?a = "app\<lparr>lRecentSourceFiles :=
                     ?P # (if ?P \<in> set (lRecentSourceFiles app)
                           then remove1 ?P (lRecentSourceFiles app)
                           else lRecentSourceFiles app),
                   oSourceMenuValue := ?P\<rparr>"
    from inner [of ?a] obtain a' where a': "openNewSourceFile normpath isfile ?a ?P =
        Some (a', [Delete 1])" "hd (lRecentSourceFiles a') = ?P" "oSourceMenuValue a' = ?P"
      by auto
    with False isf show ?thesis
      by (subst openNewSourceFile.simps)
        (simp add: Let_def startFileWatch_def clearLog_def stopFileWatch_def)
  qed
qed

section \<open>Properties of the record assembler\<close>

lemma append_loop_index:
  "0 < iIdx \<Longrightarrow> snd (append_loop iIdx ls (xs, k)) = k"
  by (induction ls arbitrary: iIdx xs k) (auto simp: Let_def)

lemma append_loop_extends:
  "xs \<noteq> [] \<Longrightarrow>
     \<exists>suffix rest. fst (append_loop iIdx ls (xs, k)) =
        butlast xs @ (last xs)\<lparr>sText := sText (last xs) @ suffix\<rparr> # rest"
proof (induction ls arbitrary: iIdx xs k)
  case Nil
  have "xs = butlast xs @ (last xs)\<lparr>sText := sText (last xs) @ []\<rparr> # []"
    using Nil by simp
  then show ?case by (metis append_loop.simps(1) fst_conv)
next
  case (Cons l ls)
  show ?case
  proof (cases "oLogLineRegex_search l \<or> xs = []")
    case True
    let ?xs' = "xs @ [Expression_init l (getLogLevel l)]"
    from Cons.IH [of ?xs' "Suc iIdx" k] obtain suffix rest
      where "fst (append_loop (Suc iIdx) ls (?xs', k)) =
               xs @ (Expression_init l (getLogLevel l))
                      \<lparr>sText := sText (Expression_init l (getLogLevel l)) @ suffix\<rparr> # rest"
      by auto
    moreover have "xs = butlast xs @ [(last xs)\<lparr>sText := sText (last xs) @ []\<rparr>]"
      using Cons.prems by simp
    ultimately have "fst (append_loop iIdx (l # ls) (xs, k)) =
        butlast xs @ (last xs)\<lparr>sText := sText (last xs) @ []\<rparr> #
          ((Expression_init l (getLogLevel l))
              \<lparr>sText := sText (Expression_init l (getLogLevel l)) @ suffix\<rparr> # rest)"
      using True by (simp add: Let_def)
    then show ?thesis by blast
  next
    case False
    let ?xs' = "butlast xs @ [(last xs)\<lparr>sText := sText (last xs) @ [NL] @ l\<rparr>]"
    let ?k' = "if iIdx = 0 \<and> bDisplay (last xs) then k - 1 else k"
    from Cons.IH [of ?xs' "Suc iIdx" ?k'] obtain suffix rest
      where "fst (append_loop (Suc iIdx) ls (?xs', ?k')) =
               butlast xs @ (last xs)\<lparr>sText := sText (last xs) @ ([NL] @ l) @ suffix\<rparr> # rest"
      by auto
    with False have "fst (append_loop iIdx (l # ls) (xs, k)) =
        butlast xs @ (last xs)\<lparr>sText := sText (last xs) @ (([NL] @ l) @ suffix)\<rparr> # rest"
      by (simp add: Let_def)
    then show ?thesis by blast
  qed
qed

lemma first_dirty_append: "first_dirty xs (xs @ zs) = length xs"
  by (induction xs) auto

lemma first_dirty_changed:
  "x \<noteq> y \<Longrightarrow> first_dirty (pre @ x # xs) (pre @ y # ys) = length pre"
  by (induction pre) auto


text \<open>
  Claim C3, amended. When the lines have a first non-empty line, \<open>appendLogLines\<close> passes to
  \<open>updateLogWidget\<close> the index of the first expression created or mutated, but for one
  case: when that line is a continuation of a last expression that is not displayed, it
  passes the length the list had before the call, one more than the index of the
  expression it mutated.
\<close>

theorem appendLogLines_dirty_index:
  assumes lines: "filter (\<lambda>s. s \<noteq> []) (map (py_rstrip NL) lLines0) = l # ls"
  shows "\<exists>new idx.
           append_loop 0 (l # ls) (lExpressions app, length (lExpressions app)) = (new, idx) \<and>
           appendLogLines E app lLines0 = updateLogWidget E (app\<lparr>lExpressions := new\<rparr>) idx \<and>
           idx = (if oLogLineRegex_search l \<or> lExpressions app = [] \<or>
                     bDisplay (last (lExpressions app))
                  then first_dirty (lExpressions app) new
                  else length (lExpressions app)) \<and>
           first_dirty (lExpressions app) new =
             (if oLogLineRegex_search l \<or> lExpressions app = [] then length (lExpressions app)
              else length (lExpressions app) - 1)"
proof -
  let ?old = "lExpressions app"
  obtain new idx where res: "append_loop 0 (l # ls) (?old, length ?old) = (new, idx)"
    by (cases "append_loop 0 (l # ls) (?old, length ?old)") auto
  have call: "appendLogLines E app lLines0 = updateLogWidget E (app\<lparr>lExpressions := new\<rparr>) idx"
    using lines res by (simp add: appendLogLines_def)
  show ?thesis
  proof (cases "oLogLineRegex_search l \<or> ?old = []")
    case True
    let ?xs = "?old @ [Expression_init l (getLogLevel l)]"
    from True res have r1: "append_loop (Suc 0) ls (?xs, length ?old) = (new, idx)"
      by (simp add: Let_def)
    from append_loop_index [of "Suc 0" ls ?xs "length ?old"] r1 have idx: "idx = length ?old"
      by simp
    from append_loop_extends [of ?xs "Suc 0" ls "length ?old"] r1
    obtain suffix rest where "new = ?old @
        (Expression_init l (getLogLevel l))
          \<lparr>sText := sText (Expression_init l (getLogLevel l)) @ suffix\<rparr> # rest"
      by auto
    then have "first_dirty ?old new = length ?old" by (simp add: first_dirty_append)
    with True res call idx show ?thesis by simp
  next
    case False
    then have ne: "?old \<noteq> []" by simp
    let ?xs = "butlast ?old @ [(last ?old)\<lparr>sText := sText (last ?old) @ [NL] @ l\<rparr>]"
    let ?k = "if bDisplay (last ?old) then length ?old - 1 else length ?old"
    from False res have r1: "append_loop (Suc 0) ls (?xs, ?k) = (new, idx)"
      by (simp add: Let_def)
    from append_loop_index [of "Suc 0" ls ?xs ?k] r1 have idx: "idx = ?k" by simp
    from append_loop_extends [of ?xs "Suc 0" ls ?k] r1
    obtain suffix rest where new: "new = butlast ?old @
        (last ?old)\<lparr>sText := sText (last ?old) @ ([NL] @ l) @ suffix\<rparr> # rest"
      by auto
    have "sText ((last ?old)\<lparr>sText := sText (last ?old) @ ([NL] @ l) @ suffix\<rparr>) \<noteq>
          sText (last ?old)" by simp
    then have diff: "last ?old \<noteq> (last ?old)\<lparr>sText := sText (last ?old) @ ([NL] @ l) @ suffix\<rparr>"
      by metis
    from ne have old: "?old = butlast ?old @ last ?old # []" by simp
    have "first_dirty (butlast ?old @ last ?old # []) new = length (butlast ?old)"
      unfolding new by (rule first_dirty_changed [OF diff])
    with old have fd: "first_dirty ?old new = length ?old - 1" by simp
    from False res call idx fd ne show ?thesis by (auto simp: Suc_leI)
  qed
qed

text \<open>The theorem of C3 at a continuation line of a displayed expression.\<close>

theorem appendLogLines_dirty_index_witness:
  "filter (\<lambda>s. s \<noteq> []) (map (py_rstrip NL) [''extra line'']) = [''extra line''] \<and>
   (\<exists>new. append_loop 0 [''extra line''] (lExpressions two_app, length (lExpressions two_app)) =
             (new, 1) \<and>
           first_dirty (lExpressions two_app) new = 1)"
proof -
  have h: "filter (\<lambda>s. s \<noteq> []) (map (py_rstrip NL) [''extra line'']) = [''extra line'']"
    by simp
  have v: "bDisplay (last (lExpressions two_app))" "length (lExpressions two_app) = 2"
    "\<not> oLogLineRegex_search ''extra line''" "lExpressions two_app \<noteq> []"
    by (simp_all add: two_app_def Application_init_def oLogLineRegex_search_def py_isdigit_def)
  from appendLogLines_dirty_index [OF h, of two_app example_engine] obtain new idx
    where a: "append_loop 0 [''extra line''] (lExpressions two_app, length (lExpressions two_app)) =
                (new, idx)"
      and i: "idx = (if oLogLineRegex_search ''extra line'' \<or> lExpressions two_app = [] \<or>
                        bDisplay (last (lExpressions two_app))
                     then first_dirty (lExpressions two_app) new
                     else length (lExpressions two_app))"
      and f: "first_dirty (lExpressions two_app) new =
                (if oLogLineRegex_search ''extra line'' \<or> lExpressions two_app = []
                 then length (lExpressions two_app) else length (lExpressions two_app) - 1)"
    by blast
  from f v have "first_dirty (lExpressions two_app) new = 1" by simp
  moreover from i v this have "idx = 1" by simp
  ultimately show ?thesis using a h by blast
qed

text \<open>
  Claim C3 as stated fails: a continuation line extends the hidden last expression, at
  index 1, and the index passed on is 2.
\<close>

theorem hidden_record_extended_unreported:
  "append_loop 0 [''extra line''] (lExpressions hidden_app, length (lExpressions hidden_app)) =
     ([\<lparr>sText = ''2024-01-01 ERROR a'', oLogLevel = Some Error, sStartIdx = Some 1,
         sEndIdx = Some 2, bDisplay = True\<rparr>,
       \<lparr>sText = ''2024-01-02 INFO b'' @ [NL] @ ''extra line'', oLogLevel = Some Info,
         sStartIdx = Some 2, sEndIdx = Some 3, bDisplay = False\<rparr>], 2) \<and>
   first_dirty (lExpressions hidden_app)
     [\<lparr>sText = ''2024-01-01 ERROR a'', oLogLevel = Some Error, sStartIdx = Some 1,
         sEndIdx = Some 2, bDisplay = True\<rparr>,
      \<lparr>sText = ''2024-01-02 INFO b'' @ [NL] @ ''extra line'', oLogLevel = Some Info,
         sStartIdx = Some 2, sEndIdx = Some 3, bDisplay = False\<rparr>] = 1"
  by (simp add: hidden_app_def Application_init_def oLogLineRegex_search_def py_isdigit_def)

end
